theory Spec2Isabelle
  imports Main "HOL-Library.Sublist"
begin

section \<open>The round-robin pool\<close>

text \<open>
  \<^verbatim>\<open>client.py\<close> keeps its connections in a \<^verbatim>\<open>RoundRobinMap\<close>, imported from
  \<^verbatim>\<open>round_robin_map.py\<close>. The client uses four of its operations: \<^verbatim>\<open>keys()\<close>,
  \<^verbatim>\<open>del pool[address]\<close>, \<^verbatim>\<open>pool[address] = connection\<close> and \<^verbatim>\<open>next(iter(pool))\<close>,
  which yields an (address, connection) pair or stops when the pool is empty.
\<close>

text \<open>Modelled from the spec: the class \<^verbatim>\<open>RoundRobinMap\<close> of \<^verbatim>\<open>round_robin_map.py\<close>. The
  pool is an ordered, index-addressable sequence of (address, connection) pairs with
  a cursor that is a position and lives across calls.\<close>

record 'v RoundRobinMap =
  entries :: "(string \<times> 'v) list"
  cursor :: nat

text \<open>Modelled from the spec: \<^verbatim>\<open>RoundRobinMap.__init__\<close>, the pool without entries.\<close>

definition empty_pool :: "'v RoundRobinMap" where
  "empty_pool = \<lparr>entries = [], cursor = 0\<rparr>"

text \<open>Modelled from the spec: \<^verbatim>\<open>RoundRobinMap.keys\<close>, the addresses in rotation order.\<close>

definition keys :: "'v RoundRobinMap \<Rightarrow> string list" where
  "keys p = map fst (entries p)"

text \<open>Modelled from the spec: \<^verbatim>\<open>addresses()\<close>, the snapshot of the membership.\<close>

definition addresses :: "'v RoundRobinMap \<Rightarrow> string set" where
  "addresses p = set (keys p)"

text \<open>Modelled from the spec: the mapping from an address to its index in the
  sequence, which \<^verbatim>\<open>remove\<close> consults.\<close>

fun index_of :: "'a \<Rightarrow> 'a list \<Rightarrow> nat option" where
  "index_of a [] = None"
| "index_of a (x # xs) =
     (if x = a then Some 0 else map_option Suc (index_of a xs))"

text \<open>Modelled from the spec: the precondition error of \<^verbatim>\<open>upsert\<close>.\<close>

datatype pool_error = Precondition_Error

text \<open>Modelled from the spec: \<^verbatim>\<open>upsert\<close> (\<^verbatim>\<open>RoundRobinMap.__setitem__\<close>). It inserts an absent
  address and fails with a precondition error on an address that is present.
\<close>

definition upsert :: "string \<Rightarrow> 'v \<Rightarrow> 'v RoundRobinMap \<Rightarrow> pool_error + 'v RoundRobinMap" where
  "upsert a v p =
     (if a \<in> set (keys p) then Inl Precondition_Error
      else Inr (p\<lparr>entries := entries p @ [(a, v)]\<rparr>))"

text \<open>Modelled from the spec: \<^verbatim>\<open>remove\<close> (\<^verbatim>\<open>RoundRobinMap.__delitem__\<close>). An absent address is
  a no-op; removing an entry that lies before the cursor moves the cursor back by one.
\<close>

definition remove :: "string \<Rightarrow> 'v RoundRobinMap \<Rightarrow> 'v RoundRobinMap" where
  "remove a p =
     (case index_of a (keys p) of
        None \<Rightarrow> p
      | Some i \<Rightarrow>
          p\<lparr>entries := take i (entries p) @ drop (Suc i) (entries p),
            cursor := (if i < cursor p then cursor p - 1 else cursor p)\<rparr>)"

text \<open>Modelled from the spec: \<^verbatim>\<open>select_next\<close> (\<^verbatim>\<open>next(iter(pool))\<close>). The cursor is read
  modulo the current length, the entry under it is returned and the cursor moves past
  it. \<open>None\<close> is the exhausted iterator (\<^verbatim>\<open>StopIteration\<close>) of the empty pool.
\<close>

definition select_next :: "'v RoundRobinMap \<Rightarrow> ((string \<times> 'v) \<times> 'v RoundRobinMap) option" where
  "select_next p =
     (if entries p = [] then None
      else let n = length (entries p); i = cursor p mod n
           in Some (entries p ! i, p\<lparr>cursor := Suc i mod n\<rparr>))"

text \<open>The addresses that \<open>k\<close> consecutive selections return, first selection first
  (\<^verbatim>\<open>get_round_robin_stub\<close> advances the pool by one selection at each call).\<close>

fun selections :: "nat \<Rightarrow> 'v RoundRobinMap \<Rightarrow> string list" where
  "selections 0 p = []"
| "selections (Suc k) p =
     (case select_next p of
        None \<Rightarrow> []
      | Some ((a, _), p') \<Rightarrow> a # selections k p')"

section \<open>Errors, transport handles and connections\<close>

datatype status_code =
    OK | CANCELLED | UNKNOWN | INVALID_ARGUMENT | DEADLINE_EXCEEDED | NOT_FOUND
  | ALREADY_EXISTS | PERMISSION_DENIED | RESOURCE_EXHAUSTED | FAILED_PRECONDITION
  | ABORTED | OUT_OF_RANGE | UNIMPLEMENTED | INTERNAL | UNAVAILABLE | DATA_LOSS
  | UNAUTHENTICATED

text \<open>
  The exceptions that reach the handlers of \<^verbatim>\<open>client.py\<close>. \<open>RpcError\<close> is
  \<^verbatim>\<open>grpc.RpcError\<close> with its \<^verbatim>\<open>code()\<close> and \<^verbatim>\<open>details()\<close>; \<open>GRPCError\<close> is grpclib's error
  with its \<^verbatim>\<open>status\<close> and its \<^verbatim>\<open>message\<close>, which is \<^verbatim>\<open>None\<close> unless one is given (the tests
  of the repository build \<^verbatim>\<open>GRPCError(Status.UNAVAILABLE)\<close>). \<open>gaierror\<close> is what
  \<^verbatim>\<open>socket.gethostbyname_ex\<close> raises, \<open>Pool_error\<close> what the pool raises.
  \<open>Other_Exception\<close> stands for every other subclass of \<^verbatim>\<open>Exception\<close>,
  \<open>Other_BaseException\<close> for what is no \<^verbatim>\<open>Exception\<close> (\<^verbatim>\<open>KeyboardInterrupt\<close>, \<^verbatim>\<open>SystemExit\<close>).
\<close>

datatype error =
    EmptyPool
  | RpcError status_code string
  | GRPCError status_code "string option"
  | CancelledError
  | gaierror
  | TypeError
  | Pool_error pool_error
  | Other_Exception string
  | Other_BaseException string

text \<open>
  \<^verbatim>\<open>isinstance(e, Exception)\<close>. \<^verbatim>\<open>asyncio.CancelledError\<close> derives from \<^verbatim>\<open>BaseException\<close>
  (Python 3.8 and later); \<^verbatim>\<open>async_predict\<close> re-raises it in a clause of its own before
  this test is reached.
\<close>

fun is_Exception :: "error \<Rightarrow> bool" where
  "is_Exception CancelledError = False"
| "is_Exception (Other_BaseException _) = False"
| "is_Exception _ = True"

text \<open>What a call raises out of \<^verbatim>\<open>predict\<close>: an exception as it is, or \<^verbatim>\<open>RetryFailed\<close>
  with \<^verbatim>\<open>n_trys\<close> (its message is \<^verbatim>\<open>f"Failed after {self.n_trys} tries"\<close>) and \<^verbatim>\<open>errors\<close>.\<close>

datatype failure = Raised error | RetryFailed int "error list"

datatype 'a outcome = Returns 'a | Raises error

type_synonym options = "(string \<times> string) list"

text \<open>A channel target is \<^verbatim>\<open>f"{addr}:{port}"\<close>, kept as the pair.\<close>

datatype sync_channel =
    insecure_channel "string \<times> int" options
  | secure_channel "string \<times> int" string options

datatype async_channel = Channel string int

datatype sync_stub = Sync_stub sync_channel

datatype async_stub = Async_stub async_channel

datatype stub = Sync sync_stub | Async async_stub

datatype channel = Sync_handle sync_channel | Async_handle async_channel

record Connection =
  addr :: string
  port :: int
  sync_channel :: sync_channel
  async_channel :: async_channel
  sync_stub :: sync_stub
  async_stub :: async_stub

text \<open>\<^verbatim>\<open>Connection.__init__\<close> (the event loop is an opaque handle and is left out).\<close>

definition Connection_init ::
  "string \<Rightarrow> int \<Rightarrow> string option \<Rightarrow> options option \<Rightarrow> Connection" where
  "Connection_init a p pem channel_options =
     (let opts = (case channel_options of None \<Rightarrow> [] | Some os \<Rightarrow> os);
          sc = (case pem of
                  None \<Rightarrow> insecure_channel (a, p) opts
                | Some creds \<Rightarrow> secure_channel (a, p) creds opts);
          ac = Channel a p
      in \<lparr>addr = a, port = p, sync_channel = sc, async_channel = ac,
          sync_stub = Sync_stub sc, async_stub = Async_stub ac\<rparr>)"

section \<open>The environment and the client's state\<close>

type_synonym ndarray = "int list"
type_synonym tensor_proto = "int list"

record request =
  model_spec_name :: string
  model_spec_signature_name :: "string option"
  inputs :: "string \<rightharpoonup> tensor_proto"
  output_filter :: "string list"

type_synonym response = "(string \<times> tensor_proto) list"

text \<open>
  Everything outside the client is a script: \<open>gethostbyname_ex w k host\<close> is what the
  \<open>k\<close>-th name resolution gives (the address list, third component of the triple, or
  an exception), \<open>Predict w k stub request\<close> what the \<open>k\<close>-th remote call gives on that
  stub (called on the blocking surface, awaited on the concurrent one, where a
  cancelled await raises \<open>CancelledError\<close>), \<open>ListModels\<close> likewise. \<open>set_order\<close>
  proposes the order in which a Python \<^verbatim>\<open>set\<close> is iterated, which the language leaves
  open; the tensor conversions are the serialisation boundary.
\<close>

record world =
  gethostbyname_ex :: "nat \<Rightarrow> string \<Rightarrow> string list outcome"
  set_order :: "string list \<Rightarrow> string list"
  Predict :: "nat \<Rightarrow> stub \<Rightarrow> request \<Rightarrow> response outcome"
  ListModels :: "nat \<Rightarrow> sync_channel \<Rightarrow> string list outcome"
  make_tensor_proto :: "ndarray \<Rightarrow> tensor_proto"
  make_ndarray :: "tensor_proto \<Rightarrow> ndarray"

datatype log_record = Warning string | Logged_exception error

text \<open>
  The fields of \<^verbatim>\<open>Client\<close> (\<^verbatim>\<open>self._host\<close>, \<^verbatim>\<open>self._port\<close>, \<^verbatim>\<open>self._pem\<close>,
  \<^verbatim>\<open>self._channel_options\<close>, \<^verbatim>\<open>self._pool\<close>, \<^verbatim>\<open>self.n_trys\<close>), followed by the history of
  its effects: how many name resolutions and remote calls were made, the transport
  handles that were opened and not closed since, and what went to the logger.
\<close>

record state =
  self_host :: string
  self_port :: int
  self_pem :: "string option"
  self_channel_options :: options
  self_pool :: "Connection RoundRobinMap"
  n_trys :: int
  resolutions :: nat
  rpcs :: nat
  open_channels :: "channel list"
  log :: "log_record list"

text \<open>
  Iterating a Python \<^verbatim>\<open>set\<close> built from \<open>xs\<close>: each element once, in the proposed order
  where the proposal is an enumeration of the set (any other proposal is repaired, so
  every \<open>order\<close> gives a legal iteration and every legal iteration is given by one).
\<close>

definition set_iter :: "(string list \<Rightarrow> string list) \<Rightarrow> string list \<Rightarrow> string list" where
  "set_iter order xs = remdups (xs @ filter (\<lambda>a. a \<in> set xs) (order xs))"

section \<open>Reconciliation\<close>

text \<open>The loop \<^verbatim>\<open>for address in new_addrs: self._pool[address] = Connection(...)\<close>.\<close>

fun add_connections :: "string list \<Rightarrow> state \<Rightarrow> (error + unit) \<times> state" where
  "add_connections [] s = (Inr (), s)"
| "add_connections (address # rest) s =
     (let conn = Connection_init address (self_port s) (self_pem s)
                   (Some (self_channel_options s));
          s1 = s\<lparr>open_channels := open_channels s
                  @ [Sync_handle (sync_channel conn), Async_handle (async_channel conn)]\<rparr>
      in case upsert address conn (self_pool s1) of
           Inl e \<Rightarrow> (Inl (Pool_error e), s1)
         | Inr p \<Rightarrow> add_connections rest (s1\<lparr>self_pool := p\<rparr>))"

text \<open>\<^verbatim>\<open>Client._setup_connections\<close>.\<close>

definition setup_connections :: "world \<Rightarrow> state \<Rightarrow> (error + unit) \<times> state" where
  "setup_connections w s =
     (let s0 = s\<lparr>resolutions := Suc (resolutions s)\<rparr>
      in case gethostbyname_ex w (resolutions s) (self_host s) of
           Raises e \<Rightarrow> (Inl e, s0)
         | Returns current_addrs \<Rightarrow>
             (let original_addrs = keys (self_pool s0)
              in if set original_addrs = set current_addrs then (Inr (), s0)
                 else
                   (let missing = set_iter (set_order w)
                          (filter (\<lambda>a. a \<notin> set current_addrs) original_addrs);
                        s1 = s0\<lparr>self_pool := fold remove missing (self_pool s0)\<rparr>;
                        new_addrs = set_iter (set_order w)
                          (filter (\<lambda>a. a \<notin> set original_addrs) current_addrs)
                    in add_connections new_addrs s1)))"

text \<open>\<^verbatim>\<open>Client.__init__\<close>, for a client built in a fresh environment.\<close>

definition Client_init ::
  "world \<Rightarrow> string \<Rightarrow> int \<Rightarrow> int \<Rightarrow> string option \<Rightarrow> options option
     \<Rightarrow> (error + unit) \<times> state" where
  "Client_init w host_name port_number n pem channel_options =
     setup_connections w
       \<lparr>self_host = host_name, self_port = port_number, self_pem = pem,
        self_channel_options = (case channel_options of None \<Rightarrow> [] | Some os \<Rightarrow> os),
        self_pool = empty_pool, n_trys = n,
        resolutions = 0, rpcs = 0, open_channels = [], log = []\<rparr>"

section \<open>Requests, selection and the retry loop\<close>

text \<open>\<^verbatim>\<open>Client._predict_request\<close>; \<open>data\<close> is the list of \<^verbatim>\<open>PredictInput\<close> pairs, or the
  items of the mapping.\<close>

definition predict_request ::
  "world \<Rightarrow> (string \<times> ndarray) list \<Rightarrow> string \<Rightarrow> string list option \<Rightarrow> string option
     \<Rightarrow> request" where
  "predict_request w data model_name output_names model_signature_name =
     \<lparr>model_spec_name = model_name,
      model_spec_signature_name = model_signature_name,
      inputs = fold (\<lambda>(name, v) m. m(name \<mapsto> make_tensor_proto w v)) data Map.empty,
      output_filter = (case output_names of None \<Rightarrow> [] | Some names \<Rightarrow> names)\<rparr>"

text \<open>\<^verbatim>\<open>Client.parse_predict_response\<close>.\<close>

definition parse_predict_response :: "world \<Rightarrow> response \<Rightarrow> (string \<rightharpoonup> ndarray)" where
  "parse_predict_response w resp =
     fold (\<lambda>(key, tensor) results. results(key \<mapsto> make_ndarray w tensor)) resp Map.empty"

text \<open>\<^verbatim>\<open>Client.list_models\<close>.\<close>

definition list_models :: "world \<Rightarrow> state \<Rightarrow> (error + string list) \<times> state" where
  "list_models w s =
     (case select_next (self_pool s) of
        None \<Rightarrow> (Inl EmptyPool, s)
      | Some ((_, conn), p) \<Rightarrow>
          (let s1 = s\<lparr>self_pool := p, rpcs := Suc (rpcs s)\<rparr>
           in case ListModels w (rpcs s) (sync_channel conn) of
                Raises e \<Rightarrow> (Inl e, s1)
              | Returns models \<Rightarrow> (Inr models, s1)))"

text \<open>\<^verbatim>\<open>Client.get_round_robin_stub\<close>.\<close>

definition get_round_robin_stub :: "bool \<Rightarrow> state \<Rightarrow> (error + stub) \<times> state" where
  "get_round_robin_stub is_async_stub s =
     (case select_next (self_pool s) of
        None \<Rightarrow> (Inl EmptyPool, s)
      | Some ((_, conn), p) \<Rightarrow>
          (Inr (if is_async_stub then Async (async_stub conn) else Sync (sync_stub conn)),
           s\<lparr>self_pool := p\<rparr>))"

text \<open>The body of the \<^verbatim>\<open>try\<close> in \<^verbatim>\<open>predict\<close> (\<open>is_async_stub = False\<close>) and in
  \<^verbatim>\<open>async_predict\<close> (\<open>True\<close>): select a stub, call \<^verbatim>\<open>Predict\<close> on it.\<close>

definition attempt :: "world \<Rightarrow> bool \<Rightarrow> request \<Rightarrow> state \<Rightarrow> (error + response) \<times> state" where
  "attempt w is_async_stub req s =
     (case get_round_robin_stub is_async_stub s of
        (Inl e, s1) \<Rightarrow> (Inl e, s1)
      | (Inr st, s1) \<Rightarrow>
          (let s2 = s1\<lparr>rpcs := Suc (rpcs s1)\<rparr>
           in case Predict w (rpcs s1) st req of
                Raises e \<Rightarrow> (Inl e, s2)
              | Returns resp \<Rightarrow> (Inr resp, s2)))"

text \<open>What an \<^verbatim>\<open>except\<close> clause does with the exception: raise out of the call, or log
  it, reconcile, record it and go to the next attempt.\<close>

datatype handling = Reraise error | Retry log_record

text \<open>The \<^verbatim>\<open>except\<close> clauses of \<^verbatim>\<open>predict\<close>, in their order: \<^verbatim>\<open>EmptyPool\<close>,
  \<^verbatim>\<open>grpc.RpcError\<close>, \<^verbatim>\<open>Exception\<close>; anything else is not caught.\<close>

fun predict_except :: "error \<Rightarrow> handling" where
  "predict_except EmptyPool = Retry (Warning ''serving_utils.Client -- empty pool'')"
| "predict_except (RpcError code details) =
     (if code = NOT_FOUND \<and> sublist ''Model'' details then Reraise (RpcError code details)
      else Retry (Logged_exception (RpcError code details)))"
| "predict_except e = (if is_Exception e then Retry (Logged_exception e) else Reraise e)"

text \<open>The \<^verbatim>\<open>except\<close> clauses of \<^verbatim>\<open>async_predict\<close>, in their order:
  \<^verbatim>\<open>asyncio.CancelledError\<close>, \<^verbatim>\<open>EmptyPool\<close>, \<^verbatim>\<open>GRPCError\<close>, \<^verbatim>\<open>Exception\<close>. The test
  \<^verbatim>\<open>"Model" in e.message\<close> is evaluated only when the status is \<^verbatim>\<open>NOT_FOUND\<close>, and
  raises \<^verbatim>\<open>TypeError\<close> on the message \<^verbatim>\<open>None\<close>.\<close>

fun async_predict_except :: "error \<Rightarrow> handling" where
  "async_predict_except CancelledError = Reraise CancelledError"
| "async_predict_except EmptyPool = Retry (Warning ''serving_utils.Client -- empty pool'')"
| "async_predict_except (GRPCError status message) =
     (if status = NOT_FOUND then
        (case message of
           None \<Rightarrow> Reraise TypeError
         | Some m \<Rightarrow>
             if sublist ''Model'' m then Reraise (GRPCError status message)
             else Retry (Logged_exception (GRPCError status message)))
      else Retry (Logged_exception (GRPCError status message)))"
| "async_predict_except e = (if is_Exception e then Retry (Logged_exception e) else Reraise e)"

definition except_clauses :: "bool \<Rightarrow> error \<Rightarrow> handling" where
  "except_clauses is_async e = (if is_async then async_predict_except e else predict_except e)"

text \<open>
  The loop \<^verbatim>\<open>for _ in range(self.n_trys): try ... except ... else: break\<close> with its
  \<^verbatim>\<open>else: raise RetryFailed\<close>, which \<^verbatim>\<open>predict\<close> and \<^verbatim>\<open>async_predict\<close> both contain; the two
  texts differ in the stub flavour and in the \<^verbatim>\<open>except\<close> clauses. The first argument
  after the request counts the iterations that remain.
\<close>

fun retry_loop ::
  "world \<Rightarrow> bool \<Rightarrow> request \<Rightarrow> nat \<Rightarrow> error list \<Rightarrow> state \<Rightarrow> (failure + response) \<times> state" where
  "retry_loop w is_async req 0 errors s = (Inl (RetryFailed (n_trys s) errors), s)"
| "retry_loop w is_async req (Suc k) errors s =
     (case attempt w is_async req s of
        (Inr resp, s1) \<Rightarrow> (Inr resp, s1)
      | (Inl e, s1) \<Rightarrow>
          (case except_clauses is_async e of
             Reraise e' \<Rightarrow> (Inl (Raised e'), s1)
           | Retry r \<Rightarrow>
               (case setup_connections w (s1\<lparr>log := log s1 @ [r]\<rparr>) of
                  (Inl e', s2) \<Rightarrow> (Inl (Raised e'), s2)
                | (Inr _, s2) \<Rightarrow> retry_loop w is_async req k (errors @ [e]) s2)))"

definition call ::
  "world \<Rightarrow> bool \<Rightarrow> (string \<times> ndarray) list \<Rightarrow> string list option \<Rightarrow> string \<Rightarrow> string option
     \<Rightarrow> state \<Rightarrow> (failure + (string \<rightharpoonup> ndarray)) \<times> state" where
  "call w is_async data output_names model_name model_signature_name s =
     (case setup_connections w s of
        (Inl e, s1) \<Rightarrow> (Inl (Raised e), s1)
      | (Inr _, s1) \<Rightarrow>
          (let req = predict_request w data model_name output_names model_signature_name
           in case retry_loop w is_async req (nat (n_trys s1)) [] s1 of
                (Inl f, s2) \<Rightarrow> (Inl f, s2)
              | (Inr resp, s2) \<Rightarrow> (Inr (parse_predict_response w resp), s2)))"

text \<open>\<^verbatim>\<open>Client.predict\<close>.\<close>

definition predict ::
  "world \<Rightarrow> (string \<times> ndarray) list \<Rightarrow> string list option \<Rightarrow> string \<Rightarrow> string option
     \<Rightarrow> state \<Rightarrow> (failure + (string \<rightharpoonup> ndarray)) \<times> state" where
  "predict w data output_names model_name model_signature_name s =
     call w False data output_names model_name model_signature_name s"

text \<open>\<^verbatim>\<open>Client.async_predict\<close>.\<close>

definition async_predict ::
  "world \<Rightarrow> (string \<times> ndarray) list \<Rightarrow> string list option \<Rightarrow> string \<Rightarrow> string option
     \<Rightarrow> state \<Rightarrow> (failure + (string \<rightharpoonup> ndarray)) \<times> state" where
  "async_predict w data output_names model_name model_signature_name s =
     call w True data output_names model_name model_signature_name s"

section \<open>Notions used by the properties\<close>

text \<open>The failure that a logger record stands for: the warning is written for
  \<^verbatim>\<open>EmptyPool\<close>, every other record is the exception itself.\<close>

fun recorded :: "log_record \<Rightarrow> error" where
  "recorded (Warning _) = EmptyPool"
| "recorded (Logged_exception e) = e"

text \<open>
  Which remote call each of \<open>k\<close> consecutive failing attempts makes, when the pool was
  last reconciled with the resolver's answer number \<open>r\<close> and \<open>c\<close> remote calls were made
  before: an attempt on an empty pool makes none (\<open>None\<close>), any other attempt makes
  the next call; the reconciliation after a failed attempt takes the next answer.
\<close>

fun attempt_schedule :: "(nat \<Rightarrow> string list) \<Rightarrow> nat \<Rightarrow> nat \<Rightarrow> nat \<Rightarrow> nat option list" where
  "attempt_schedule answer r c 0 = []"
| "attempt_schedule answer r c (Suc k) =
     (if answer r = [] then None # attempt_schedule answer (Suc r) c k
      else Some c # attempt_schedule answer (Suc r) (Suc c) k)"

text \<open>The error that an attempt raises: \<^verbatim>\<open>EmptyPool\<close> when it makes no remote call, and
  otherwise what the environment's remote call of that number raises on the selected
  stub.\<close>

fun raised_by :: "world \<Rightarrow> request \<Rightarrow> error \<Rightarrow> nat option \<Rightarrow> bool" where
  "raised_by w req e None = (e = EmptyPool)"
| "raised_by w req e (Some c) = (\<exists>st. Predict w c st req = Raises e)"


text \<open>The entries and the transport handles that the insertion loop creates for a list
  of addresses.\<close>

definition new_entries :: "state \<Rightarrow> string list \<Rightarrow> (string \<times> Connection) list" where
  "new_entries s as =
     map (\<lambda>a. (a, Connection_init a (self_port s) (self_pem s)
                    (Some (self_channel_options s)))) as"

definition new_handles :: "state \<Rightarrow> string list \<Rightarrow> channel list" where
  "new_handles s as =
     concat (map (\<lambda>a.
       [Sync_handle (sync_channel (Connection_init a (self_port s) (self_pem s)
          (Some (self_channel_options s)))),
        Async_handle (async_channel (Connection_init a (self_port s) (self_pem s)
          (Some (self_channel_options s))))]) as)"

text \<open>
  Concrete environments and clients. In \<open>scripted_world\<close> the resolver answers with
  \<open>resolve k\<close> at its \<open>k\<close>-th call and every remote call has the outcome \<open>reply k\<close>;
  sets are iterated in insertion order. \<open>fresh_client\<close> is the client before its first
  reconciliation, \<open>client_of\<close> one whose pool holds the given addresses, and
  \<open>no_backends\<close> the environment in which the name resolves to no address. In
  \<open>resolver_goes_down\<close> the name resolves once and never again while every remote call
  is refused; in \<open>backend_comes_up_failing\<close> the name resolves to no address at first and
  to one address later, whose first call is refused and whose later calls time out.

  \<open>default_request\<close> is the request for the model \<^verbatim>\<open>default\<close> without inputs.
\<close>

definition scripted_world ::
  "(nat \<Rightarrow> string list outcome) \<Rightarrow> (nat \<Rightarrow> response outcome) \<Rightarrow> world" where
  "scripted_world resolve reply =
     \<lparr>gethostbyname_ex = (\<lambda>k _. resolve k),
      set_order = (\<lambda>xs. xs),
      Predict = (\<lambda>k _ _. reply k),
      ListModels = (\<lambda>_ _. Returns [''default'']),
      make_tensor_proto = (\<lambda>v. v),
      make_ndarray = (\<lambda>t. t)\<rparr>"

definition no_backends :: world where
  "no_backends = scripted_world (\<lambda>_. Returns []) (\<lambda>_. Returns [])"

definition resolver_goes_down :: world where
  "resolver_goes_down =
     scripted_world (\<lambda>k. if k = 0 then Returns [''1.2.3.4''] else Raises gaierror)
       (\<lambda>_. Raises (RpcError UNAVAILABLE ''down''))"

definition backend_comes_up_failing :: world where
  "backend_comes_up_failing =
     scripted_world (\<lambda>k. if k = 0 then Returns [] else Returns [''1.2.3.4''])
       (\<lambda>k. if k = 0 then Raises (RpcError UNAVAILABLE ''down'')
            else Raises (RpcError DEADLINE_EXCEEDED ''slow''))"


definition fresh_client :: "int \<Rightarrow> state" where
  "fresh_client n =
     \<lparr>self_host = ''localhost'', self_port = 9999, self_pem = None,
      self_channel_options = [], self_pool = empty_pool, n_trys = n,
      resolutions = 0, rpcs = 0, open_channels = [], log = []\<rparr>"

definition client_of :: "string list \<Rightarrow> int \<Rightarrow> state" where
  "client_of as n =
     (fresh_client n)
       \<lparr>self_pool := \<lparr>entries = new_entries (fresh_client n) as, cursor = 0\<rparr>,
        open_channels := new_handles (fresh_client n) as\<rparr>"

section \<open>Fair rotation\<close>

lemma select_next_entries:
  "select_next p = Some (e, p') \<Longrightarrow> entries p' = entries p"
  by (auto simp: select_next_def Let_def split: if_splits)

lemma select_next_keys:
  "select_next p = Some (e, p') \<Longrightarrow> keys p' = keys p"
  by (simp add: keys_def select_next_entries)

lemma selections_nth:
  "entries p \<noteq> [] \<Longrightarrow>
   selections k p = map (\<lambda>j. keys p ! ((cursor p + j) mod length (entries p))) [0..<k]"
proof (induction k arbitrary: p)
  case 0
  then show ?case by simp
next
  case (Suc k)
  let ?n = "length (entries p)"
  let ?i = "cursor p mod ?n"
  let ?p' = "p\<lparr>cursor := Suc ?i mod ?n\<rparr>"
  from Suc.prems have pos: "0 < ?n" by simp
  have sel: "select_next p = Some (entries p ! ?i, ?p')"
    using Suc.prems by (simp add: select_next_def Let_def)
  have ne': "entries ?p' \<noteq> []" using Suc.prems by simp
  have tl: "selections k ?p' =
      map (\<lambda>j. keys ?p' ! ((cursor ?p' + j) mod length (entries ?p'))) [0..<k]"
    by (rule Suc.IH [OF ne'])
  have step: "(Suc ?i mod ?n + j) mod ?n = (cursor p + Suc j) mod ?n" for j
  proof -
    have "(Suc ?i mod ?n + j) mod ?n = (Suc ?i + j) mod ?n"
      by (simp add: mod_add_left_eq)
    also have "\<dots> = Suc (?i + j) mod ?n" by simp
    also have "\<dots> = Suc (cursor p + j) mod ?n"
      by (metis mod_Suc_eq mod_add_left_eq)
    finally show ?thesis by simp
  qed
  have hd: "fst (entries p ! ?i) = keys p ! ((cursor p + 0) mod ?n)"
    using pos by (simp add: keys_def)
  have "selections (Suc k) p = fst (entries p ! ?i) # selections k ?p'"
    using sel by (simp split: prod.splits)
  also have "\<dots> = keys p ! ((cursor p + 0) mod ?n)
      # map (\<lambda>j. keys p ! ((cursor p + Suc j) mod ?n)) [0..<k]"
    using tl hd by (simp add: keys_def step)
  also have "\<dots> = map (\<lambda>j. keys p ! ((cursor p + j) mod ?n)) (0 # map Suc [0..<k])"
    by (simp add: comp_def)
  also have "0 # map Suc [0..<k] = [0..<Suc k]"
    using upt_conv_Cons [of 0 "Suc k"] by (simp add: map_Suc_upt del: upt_Suc)
  finally show ?case .
qed

lemma selections_rotate:
  assumes "entries p \<noteq> []"
  shows "selections (length (entries p)) p = rotate (cursor p) (keys p)"
proof (rule nth_equalityI)
  show "length (selections (length (entries p)) p) = length (rotate (cursor p) (keys p))"
    using assms by (simp add: selections_nth keys_def)
next
  fix i
  assume "i < length (selections (length (entries p)) p)"
  then have i: "i < length (keys p)"
    using assms by (simp add: selections_nth keys_def)
  then show "selections (length (entries p)) p ! i = rotate (cursor p) (keys p) ! i"
    using assms by (simp add: selections_nth nth_rotate keys_def)
qed

text \<open>
  C1. In a pool of K addresses (its keys unique, its membership untouched during the
  window), K consecutive selections return K addresses that are pairwise different and
  are exactly the addresses of the pool: each is visited once before any repeats. The
  pool is arbitrary, so the order of the insertions and the position of the cursor
  play no role.
\<close>

theorem round_robin_fairness:
  assumes "distinct (keys p)" and "entries p \<noteq> []"
  shows "length (selections (length (keys p)) p) = length (keys p)
       \<and> distinct (selections (length (keys p)) p)
       \<and> set (selections (length (keys p)) p) = addresses p"
proof -
  have "selections (length (keys p)) p = rotate (cursor p) (keys p)"
    using selections_rotate [OF assms(2)] by (simp add: keys_def)
  then show ?thesis using assms(1) by (simp add: addresses_def)
qed

theorem round_robin_fairness_witness:
  "selections (length (keys \<lparr>entries = [(''b'', 2::nat), (''a'', 1), (''c'', 3)], cursor = 2\<rparr>))
     \<lparr>entries = [(''b'', 2::nat), (''a'', 1), (''c'', 3)], cursor = 2\<rparr>
       = [''c'', ''b'', ''a'']
   \<and> set [''c'', ''b'', ''a'']
       = addresses \<lparr>entries = [(''b'', 2::nat), (''a'', 1), (''c'', 3)], cursor = 2\<rparr>"
  using round_robin_fairness
    [of "\<lparr>entries = [(''b'', 2::nat), (''a'', 1), (''c'', 3)], cursor = 2\<rparr>"]
  by (simp add: keys_def select_next_def)

section \<open>Reconciliation converges\<close>

lemma set_set_iter: "set (set_iter f xs) = set xs"
  by (auto simp: set_iter_def)

lemma distinct_set_iter: "distinct (set_iter f xs)"
  by (simp add: set_iter_def)

lemma set_iter_enumeration:
  "distinct ys \<Longrightarrow> set ys = set xs \<Longrightarrow> set_iter (\<lambda>_. ys) xs = ys"
  by (simp add: set_iter_def remdups_append distinct_remdups_id)

lemma index_of_None: "index_of a xs = None \<longleftrightarrow> a \<notin> set xs"
  by (induction xs) auto

lemma index_of_drop:
  "distinct (map fst es) \<Longrightarrow> index_of a (map fst es) = Some i \<Longrightarrow>
   map fst (take i es @ drop (Suc i) es) = filter (\<lambda>x. x \<noteq> a) (map fst es)"
proof (induction es arbitrary: i)
  case Nil
  then show ?case by simp
next
  case (Cons e es)
  show ?case
  proof (cases "fst e = a")
    case True
    with Cons.prems have "i = 0" and "a \<notin> set (map fst es)" by auto
    moreover from this have "filter (\<lambda>x. x \<noteq> a) (map fst es) = map fst es"
      by (intro filter_True) auto
    ultimately show ?thesis using True by simp
  next
    case False
    with Cons.prems obtain j where j: "index_of a (map fst es) = Some j" "i = Suc j"
      by auto
    with Cons.IH [of j] Cons.prems False show ?thesis by simp
  qed
qed

lemma keys_remove:
  assumes "distinct (keys p)"
  shows "keys (remove a p) = filter (\<lambda>x. x \<noteq> a) (keys p)"
proof (cases "index_of a (keys p)")
  case None
  then have "a \<notin> set (keys p)" by (simp add: index_of_None)
  then have "filter (\<lambda>x. x \<noteq> a) (keys p) = keys p"
    by (intro filter_True) auto
  then show ?thesis using None by (simp add: remove_def)
next
  case (Some i)
  have "keys (remove a p) = map fst (take i (entries p) @ drop (Suc i) (entries p))"
    using Some by (simp add: remove_def keys_def)
  also have "\<dots> = filter (\<lambda>x. x \<noteq> a) (map fst (entries p))"
    using assms Some unfolding keys_def by (rule index_of_drop)
  finally show ?thesis by (simp add: keys_def)
qed

lemma keys_fold_remove:
  "distinct (keys p) \<Longrightarrow> keys (fold remove ms p) = filter (\<lambda>x. x \<notin> set ms) (keys p)"
proof (induction ms arbitrary: p)
  case Nil
  then show ?case by simp
next
  case (Cons m ms)
  have "distinct (keys (remove m p))" using Cons.prems by (simp add: keys_remove)
  from Cons.IH [OF this] show ?case using Cons.prems
    by (simp add: keys_remove conj_commute)
qed

lemma set_keys_remove: "set (keys (remove a p)) \<subseteq> set (keys p)"
  by (cases "index_of a (keys p)")
     (auto simp: remove_def keys_def dest: in_set_takeD in_set_dropD)

lemma set_keys_fold_remove: "set (keys (fold remove ms p)) \<subseteq> set (keys p)"
proof (induction ms arbitrary: p)
  case Nil
  then show ?case by simp
next
  case (Cons m ms)
  show ?case using Cons.IH [of "remove m p"] set_keys_remove [of m p] by auto
qed

lemma add_connections_fresh:
  "distinct as \<Longrightarrow> set as \<inter> set (keys (self_pool s)) = {} \<Longrightarrow>
   add_connections as s =
     (Inr (), s\<lparr>self_pool := (self_pool s)\<lparr>entries := entries (self_pool s) @ new_entries s as\<rparr>,
               open_channels := open_channels s @ new_handles s as\<rparr>)"
proof (induction as arbitrary: s)
  case Nil
  then show ?case by (simp add: new_entries_def new_handles_def)
next
  case (Cons a as)
  then show ?case
    by (simp add: Let_def upsert_def keys_def new_entries_def new_handles_def)
qed


lemma setup_connections_raises:
  "gethostbyname_ex w (resolutions s) (self_host s) = Raises e \<Longrightarrow>
   setup_connections w s = (Inl e, s\<lparr>resolutions := Suc (resolutions s)\<rparr>)"
  by (simp add: setup_connections_def)

lemma setup_connections_fast_path:
  "gethostbyname_ex w (resolutions s) (self_host s) = Returns xs \<Longrightarrow>
   set (keys (self_pool s)) = set xs \<Longrightarrow>
   setup_connections w s = (Inr (), s\<lparr>resolutions := Suc (resolutions s)\<rparr>)"
  by (simp add: setup_connections_def)

lemma setup_connections_resolved:
  assumes res: "gethostbyname_ex w (resolutions s) (self_host s) = Returns xs"
  shows "\<exists>P H. setup_connections w s =
           (Inr (), s\<lparr>resolutions := Suc (resolutions s), self_pool := P,
                      open_channels := open_channels s @ H\<rparr>)
         \<and> (distinct (keys (self_pool s)) \<longrightarrow> set (keys P) = set xs \<and> distinct (keys P))"
proof (cases "set (keys (self_pool s)) = set xs")
  case True
  have "setup_connections w s =
      (Inr (), s\<lparr>resolutions := Suc (resolutions s), self_pool := self_pool s,
                 open_channels := open_channels s @ []\<rparr>)"
    using setup_connections_fast_path [OF res True] by simp
  then show ?thesis using True by blast
next
  case False
  define ks where "ks = keys (self_pool s)"
  define missing where
    "missing = set_iter (set_order w) (filter (\<lambda>a. a \<notin> set xs) ks)"
  define new_addrs where
    "new_addrs = set_iter (set_order w) (filter (\<lambda>a. a \<notin> set ks) xs)"
  define s1 where
    "s1 = s\<lparr>resolutions := Suc (resolutions s),
            self_pool := fold remove missing (self_pool s)\<rparr>"
  have run: "setup_connections w s = add_connections new_addrs s1"
    using res False
    by (simp add: setup_connections_def Let_def ks_def missing_def new_addrs_def s1_def)
  have sub: "set (keys (self_pool s1)) \<subseteq> set ks"
    by (simp add: s1_def ks_def set_keys_fold_remove)
  have new: "set new_addrs = {a \<in> set xs. a \<notin> set ks}" "distinct new_addrs"
    by (auto simp: new_addrs_def set_set_iter distinct_set_iter)
  from new sub have disj: "set new_addrs \<inter> set (keys (self_pool s1)) = {}" by auto
  let ?P = "(self_pool s1)\<lparr>entries := entries (self_pool s1) @ new_entries s1 new_addrs\<rparr>"
  have "setup_connections w s =
      (Inr (), s\<lparr>resolutions := Suc (resolutions s), self_pool := ?P,
                 open_channels := open_channels s @ new_handles s1 new_addrs\<rparr>)"
    unfolding run add_connections_fresh [OF new(2) disj] by (simp add: s1_def)
  moreover have "set (keys ?P) = set xs \<and> distinct (keys ?P)" if d: "distinct ks"
  proof -
    have k1: "keys (self_pool s1) = filter (\<lambda>x. x \<notin> set missing) ks"
      using d by (simp add: s1_def ks_def keys_fold_remove)
    have m: "set missing = {a \<in> set ks. a \<notin> set xs}"
      by (auto simp: missing_def set_set_iter)
    have kP: "keys ?P = keys (self_pool s1) @ new_addrs"
      by (simp add: keys_def new_entries_def comp_def)
    show ?thesis using d new m unfolding kP k1 by auto
  qed
  ultimately show ?thesis unfolding ks_def by blast
qed

lemma setup_connections_frame:
  "\<exists>r P H. setup_connections w s =
     (r, s\<lparr>resolutions := Suc (resolutions s), self_pool := P,
           open_channels := open_channels s @ H\<rparr>)"
proof (cases "gethostbyname_ex w (resolutions s) (self_host s)")
  case (Returns xs)
  from setup_connections_resolved [OF this] show ?thesis by blast
next
  case (Raises e)
  have "setup_connections w s =
      (Inl e, s\<lparr>resolutions := Suc (resolutions s), self_pool := self_pool s,
                open_channels := open_channels s @ []\<rparr>)"
    using setup_connections_raises [OF Raises] by simp
  then show ?thesis by blast
qed

text \<open>
  C2. Whatever the pool held before (its keys unique), one run of
  \<^verbatim>\<open>_setup_connections\<close> in which the resolver answers with the addresses \<open>xs\<close> ends
  without an exception and leaves a pool whose key set is \<open>set xs\<close>. A second run in
  which the resolver answers with the same set takes the early \<^verbatim>\<open>return\<close>: the pool with
  its cursor, the open handles and the log are as before, and only the count of
  resolutions has grown.
\<close>

theorem reconcile_converges:
  assumes "distinct (keys (self_pool s))"
    and "gethostbyname_ex w (resolutions s) (self_host s) = Returns xs"
  shows "\<exists>s1. setup_connections w s = (Inr (), s1)
           \<and> addresses (self_pool s1) = set xs
           \<and> (\<forall>ys. gethostbyname_ex w (resolutions s1) (self_host s1) = Returns ys
                  \<longrightarrow> set ys = set xs
                  \<longrightarrow> setup_connections w s1
                        = (Inr (), s1\<lparr>resolutions := Suc (resolutions s1)\<rparr>))"
proof -
  from setup_connections_resolved [OF assms(2)] assms(1)
  obtain P H where run: "setup_connections w s =
      (Inr (), s\<lparr>resolutions := Suc (resolutions s), self_pool := P,
                 open_channels := open_channels s @ H\<rparr>)"
    and P: "set (keys P) = set xs"
    by blast
  let ?s1 = "s\<lparr>resolutions := Suc (resolutions s), self_pool := P,
               open_channels := open_channels s @ H\<rparr>"
  have "setup_connections w ?s1 = (Inr (), ?s1\<lparr>resolutions := Suc (resolutions ?s1)\<rparr>)"
    if "gethostbyname_ex w (resolutions ?s1) (self_host ?s1) = Returns ys"
      and "set ys = set xs" for ys
    using setup_connections_fast_path [OF that(1)] P that(2) by simp
  with run P show ?thesis by (auto simp: addresses_def)
qed

theorem reconcile_converges_witness:
  "addresses (self_pool (snd (setup_connections
      (scripted_world (\<lambda>_. Returns [''5.6.7.8'', ''1.2.3.4'']) (\<lambda>_. Returns []))
      (client_of [''1.2.3.4'', ''9.9.9.9''] 3)))) = set [''5.6.7.8'', ''1.2.3.4'']"
proof -
  let ?w = "scripted_world (\<lambda>_. Returns [''5.6.7.8'', ''1.2.3.4'']) (\<lambda>_. Returns [])"
  let ?s = "client_of [''1.2.3.4'', ''9.9.9.9''] 3"
  have d: "distinct (keys (self_pool ?s))"
    by (simp add: client_of_def keys_def new_entries_def)
  have r: "gethostbyname_ex ?w (resolutions ?s) (self_host ?s)
      = Returns [''5.6.7.8'', ''1.2.3.4'']"
    by (simp add: scripted_world_def)
  from reconcile_converges [OF d r] obtain s1
    where a: "setup_connections ?w ?s = (Inr (), s1)"
      and b: "addresses (self_pool s1) = set [''5.6.7.8'', ''1.2.3.4'']"
    by blast
  show ?thesis unfolding a snd_conv by (rule b)
qed

section \<open>Selection and the retry loop\<close>

lemma get_round_robin_stub_frame:
  assumes "get_round_robin_stub b s = (r, s1)"
  shows "\<exists>P. s1 = s\<lparr>self_pool := P\<rparr> \<and> keys P = keys (self_pool s)"
proof (cases "select_next (self_pool s)")
  case None
  with assms have "s1 = s\<lparr>self_pool := self_pool s\<rparr>"
    by (simp add: get_round_robin_stub_def)
  then show ?thesis by blast
next
  case (Some x)
  obtain e P where x: "x = (e, P)" by (cases x)
  from Some x have "keys P = keys (self_pool s)" by (simp add: select_next_keys)
  moreover from assms Some x have "s1 = s\<lparr>self_pool := P\<rparr>"
    by (auto simp: get_round_robin_stub_def split: prod.splits)
  ultimately show ?thesis by blast
qed

lemma get_round_robin_stub_empty:
  "entries (self_pool s) = [] \<Longrightarrow> get_round_robin_stub b s = (Inl EmptyPool, s)"
  by (simp add: get_round_robin_stub_def select_next_def)

lemma attempt_cases:
  "(attempt w b req s = (Inl EmptyPool, s) \<and> entries (self_pool s) = [])
   \<or> (\<exists>P st. keys P = keys (self_pool s) \<and> entries (self_pool s) \<noteq> []
        \<and> attempt w b req s =
            ((case Predict w (rpcs s) st req of Raises e \<Rightarrow> Inl e | Returns resp \<Rightarrow> Inr resp),
             s\<lparr>self_pool := P, rpcs := Suc (rpcs s)\<rparr>))"
proof (cases "entries (self_pool s) = []")
  case True
  then show ?thesis by (simp add: attempt_def get_round_robin_stub_empty)
next
  case False
  then obtain e P where sel: "select_next (self_pool s) = Some (e, P)"
    by (auto simp: select_next_def Let_def)
  then have k: "keys P = keys (self_pool s)" by (rule select_next_keys)
  obtain a conn where e: "e = (a, conn)" by (cases e)
  let ?st = "if b then Async (async_stub conn) else Sync (sync_stub conn)"
  have "attempt w b req s =
      ((case Predict w (rpcs s) ?st req of Raises e \<Rightarrow> Inl e | Returns resp \<Rightarrow> Inr resp),
       s\<lparr>self_pool := P, rpcs := Suc (rpcs s)\<rparr>)"
    using sel e by (simp add: attempt_def get_round_robin_stub_def Let_def split: outcome.splits)
  with k False show ?thesis by blast
qed

lemma attempt_frame:
  assumes "attempt w b req s = (r, s1)"
  shows "\<exists>P n. s1 = s\<lparr>self_pool := P, rpcs := n\<rparr> \<and> keys P = keys (self_pool s)
           \<and> (r \<noteq> Inl EmptyPool \<longrightarrow> n = Suc (rpcs s))"
proof -
  from attempt_cases [of w b req s] show ?thesis
  proof
    assume "attempt w b req s = (Inl EmptyPool, s) \<and> entries (self_pool s) = []"
    with assms have "s1 = s\<lparr>self_pool := self_pool s, rpcs := rpcs s\<rparr>" "r = Inl EmptyPool"
      by simp_all
    then show ?thesis by blast
  next
    assume "\<exists>P st. keys P = keys (self_pool s) \<and> entries (self_pool s) \<noteq> []
        \<and> attempt w b req s =
            ((case Predict w (rpcs s) st req of Raises e \<Rightarrow> Inl e | Returns resp \<Rightarrow> Inr resp),
             s\<lparr>self_pool := P, rpcs := Suc (rpcs s)\<rparr>)"
    with assms show ?thesis by auto
  qed
qed


lemma except_clauses_recorded: "except_clauses b e = Retry r \<Longrightarrow> recorded r = e"
  by (cases b; cases e) (auto simp: except_clauses_def split: if_splits option.splits)

lemma except_clauses_EmptyPool:
  "except_clauses b EmptyPool = Retry (Warning ''serving_utils.Client -- empty pool'')"
  by (simp add: except_clauses_def)



lemma retry_loop_empty_pool:
  assumes res: "\<forall>k h. gethostbyname_ex w k h = Returns []"
  shows "entries (self_pool s) = [] \<Longrightarrow>
         retry_loop w b req k errors s =
           (Inl (RetryFailed (n_trys s) (errors @ replicate k EmptyPool)),
            s\<lparr>log := log s @ replicate k (Warning ''serving_utils.Client -- empty pool''),
              resolutions := resolutions s + k\<rparr>)"
proof (induction k arbitrary: errors s)
  case 0
  then show ?case by simp
next
  case (Suc k)
  let ?W = "Warning ''serving_utils.Client -- empty pool''"
  let ?t = "s\<lparr>log := log s @ [?W]\<rparr>"
  have att: "attempt w b req s = (Inl EmptyPool, s)"
    using Suc.prems by (simp add: attempt_def get_round_robin_stub_empty)
  have r: "gethostbyname_ex w (resolutions ?t) (self_host ?t) = Returns []"
    using res by blast
  have k: "set (keys (self_pool ?t)) = set []"
    using Suc.prems by (simp add: keys_def)
  have stp: "setup_connections w ?t = (Inr (), ?t\<lparr>resolutions := Suc (resolutions ?t)\<rparr>)"
    by (rule setup_connections_fast_path [OF r k])
  let ?u = "?t\<lparr>resolutions := Suc (resolutions ?t)\<rparr>"
  have e: "entries (self_pool ?u) = []" using Suc.prems by simp
  have "retry_loop w b req (Suc k) errors s = retry_loop w b req k (errors @ [EmptyPool]) ?u"
    using att stp by (simp add: except_clauses_EmptyPool)
  also have "\<dots> = (Inl (RetryFailed (n_trys ?u) ((errors @ [EmptyPool]) @ replicate k EmptyPool)),
            ?u\<lparr>log := log ?u @ replicate k ?W, resolutions := resolutions ?u + k\<rparr>)"
    by (rule Suc.IH [OF e])
  finally show ?case by (simp add: replicate_app_Cons_same)
qed

text \<open>
  C7. Let the resolver answer with no address at every call, for a client whose pool
  has unique keys. Then \<^verbatim>\<open>predict\<close> raises \<^verbatim>\<open>RetryFailed\<close> whose errors are \<^verbatim>\<open>EmptyPool\<close>,
  one for each attempt; no remote call is made, the pool is empty afterwards and
  selecting from it raises \<^verbatim>\<open>EmptyPool\<close>.
\<close>

theorem scale_to_zero:
  assumes res: "\<forall>k h. gethostbyname_ex w k h = Returns []"
    and inv: "distinct (keys (self_pool s))"
  shows "\<exists>s'. predict w data output_names model_name model_signature_name s
             = (Inl (RetryFailed (n_trys s) (replicate (nat (n_trys s)) EmptyPool)), s')
         \<and> entries (self_pool s') = []
         \<and> get_round_robin_stub False s' = (Inl EmptyPool, s')
         \<and> rpcs s' = rpcs s
         \<and> log s' = log s @ replicate (nat (n_trys s))
                               (Warning ''serving_utils.Client -- empty pool'')"
proof -
  from res have "gethostbyname_ex w (resolutions s) (self_host s) = Returns []" by blast
  from setup_connections_resolved [OF this] inv obtain P H
    where stp: "setup_connections w s =
        (Inr (), s\<lparr>resolutions := Suc (resolutions s), self_pool := P,
                   open_channels := open_channels s @ H\<rparr>)"
      and P: "set (keys P) = set []" by blast
  let ?s1 = "s\<lparr>resolutions := Suc (resolutions s), self_pool := P,
                open_channels := open_channels s @ H\<rparr>"
  let ?req = "predict_request w data model_name output_names model_signature_name"
  from P have e: "entries (self_pool ?s1) = []" by (simp add: keys_def)
  note loop = retry_loop_empty_pool [OF res e, of False ?req "nat (n_trys ?s1)" "[]"]
  let ?s' = "?s1\<lparr>log := log ?s1 @ replicate (nat (n_trys ?s1))
                 (Warning ''serving_utils.Client -- empty pool''),
               resolutions := resolutions ?s1 + nat (n_trys ?s1)\<rparr>"
  have "predict w data output_names model_name model_signature_name s
      = (Inl (RetryFailed (n_trys s) (replicate (nat (n_trys s)) EmptyPool)), ?s')"
    using stp loop by (simp add: predict_def call_def Let_def)
  moreover have "entries (self_pool ?s') = []" using e by simp
  moreover from this have "get_round_robin_stub False ?s' = (Inl EmptyPool, ?s')"
    by (rule get_round_robin_stub_empty)
  moreover have "rpcs ?s' = rpcs s" by simp
  moreover have "log ?s' = log s @ replicate (nat (n_trys s))
                               (Warning ''serving_utils.Client -- empty pool'')" by simp
  ultimately show ?thesis by blast
qed

theorem scale_to_zero_witness:
  "\<exists>s'. predict (scripted_world (\<lambda>_. Returns []) (\<lambda>_. Returns []))
       [] None ''default'' None (client_of [''1.2.3.4''] 3)
     = (Inl (RetryFailed 3 [EmptyPool, EmptyPool, EmptyPool]), s')"
proof -
  let ?w = "scripted_world (\<lambda>_. Returns []) (\<lambda>_. Returns [])"
  have r: "\<forall>k h. gethostbyname_ex ?w k h = Returns []"
    by (simp add: scripted_world_def)
  have d: "distinct (keys (self_pool (client_of [''1.2.3.4''] 3)))"
    by (simp add: client_of_def keys_def new_entries_def)
  have n: "n_trys (client_of [''1.2.3.4''] 3) = 3"
    by (simp add: client_of_def fresh_client_def)
  have three: "replicate (nat 3) EmptyPool = [EmptyPool, EmptyPool, EmptyPool]"
    by (simp add: numeral_3_eq_3)
  from scale_to_zero [OF r d, of "[]" None "''default''" None]
  show ?thesis unfolding n three by blast
qed


section \<open>Errors that end the call\<close>






lemma retry_loop_recorded:
  "retry_loop w b req k errors s =
     (case retry_loop w b req k [] s of
        (Inl (RetryFailed n es), s') \<Rightarrow> (Inl (RetryFailed n (errors @ es)), s')
      | other \<Rightarrow> other)"
proof (induction k arbitrary: errors s)
  case 0
  then show ?case by simp
next
  case (Suc k)
  obtain r s1 where att: "attempt w b req s = (r, s1)" by (cases "attempt w b req s")
  show ?case
  proof (cases r)
    case (Inr resp)
    with att show ?thesis by simp
  next
    case (Inl e)
    show ?thesis
    proof (cases "except_clauses b e")
      case (Reraise e')
      with att Inl show ?thesis by simp
    next
      case (Retry rec)
      obtain q s2 where stp: "setup_connections w (s1\<lparr>log := log s1 @ [rec]\<rparr>) = (q, s2)"
        by (cases "setup_connections w (s1\<lparr>log := log s1 @ [rec]\<rparr>)")
      show ?thesis
      proof (cases q)
        case (Inl e')
        with att \<open>r = Inl e\<close> Retry stp show ?thesis by simp
      next
        case (Inr u)
        have l: "retry_loop w b req (Suc k) errors s = retry_loop w b req k (errors @ [e]) s2"
          for errors
          using att \<open>r = Inl e\<close> Retry stp Inr by simp
        show ?thesis
          unfolding l Suc.IH [of "errors @ [e]" s2] Suc.IH [of "[] @ [e]" s2]
          by (auto split: prod.splits sum.splits failure.splits)
      qed
    qed
  qed
qed



section \<open>Not-found errors without the marker\<close>

text \<open>
  A \<^verbatim>\<open>NOT_FOUND\<close> error whose text lacks \<^verbatim>\<open>"Model"\<close> is retried on both surfaces: it is
  logged, reconciliation runs, the error is recorded and the loop goes on with one
  iteration less. On the concurrent surface this needs the error to have a message.
\<close>

lemma async_not_found_no_message:
  "attempt w True req s = (Inl (GRPCError NOT_FOUND None), s1) \<Longrightarrow>
   retry_loop w True req (Suc k) errors s = (Inl (Raised TypeError), s1)"
  by (simp add: except_clauses_def)

lemma not_found_without_model_sync:
  "attempt w False req s = (Inl (RpcError NOT_FOUND d), s1) \<Longrightarrow> \<not> sublist ''Model'' d \<Longrightarrow>
   retry_loop w False req (Suc k) errors s =
     (case setup_connections w (s1\<lparr>log := log s1 @ [Logged_exception (RpcError NOT_FOUND d)]\<rparr>) of
        (Inl e', s2) \<Rightarrow> (Inl (Raised e'), s2)
      | (Inr _, s2) \<Rightarrow> retry_loop w False req k (errors @ [RpcError NOT_FOUND d]) s2)"
  by (simp add: except_clauses_def)

lemma not_found_without_model_async:
  "attempt w True req s = (Inl (GRPCError NOT_FOUND (Some m)), s1) \<Longrightarrow>
   \<not> sublist ''Model'' m \<Longrightarrow>
   retry_loop w True req (Suc k) errors s =
     (case setup_connections w
             (s1\<lparr>log := log s1 @ [Logged_exception (GRPCError NOT_FOUND (Some m))]\<rparr>) of
        (Inl e', s2) \<Rightarrow> (Inl (Raised e'), s2)
      | (Inr _, s2) \<Rightarrow> retry_loop w True req k (errors @ [GRPCError NOT_FOUND (Some m)]) s2)"
  by (simp add: except_clauses_def)

lemma call_resolved:
  "gethostbyname_ex w (resolutions s) (self_host s) = Returns xs \<Longrightarrow>
   set (keys (self_pool s)) = set xs \<Longrightarrow>
   call w b data output_names model_name sg s =
     (case retry_loop w b (predict_request w data model_name output_names sg)
             (nat (n_trys s)) [] (s\<lparr>resolutions := Suc (resolutions s)\<rparr>) of
        (Inl f, s2) \<Rightarrow> (Inl f, s2)
      | (Inr resp, s2) \<Rightarrow> (Inr (parse_predict_response w resp), s2))"
  by (simp add: call_def setup_connections_fast_path)

lemma attempt_scripted_at:
  "attempt (scripted_world resolve (\<lambda>_. Raises e)) b req
       ((client_of [''1.2.3.4''] 3)\<lparr>resolutions := Suc 0\<rparr>)
     = (Inl e, snd (attempt (scripted_world resolve (\<lambda>_. Raises e)) b req
                      ((client_of [''1.2.3.4''] 3)\<lparr>resolutions := Suc 0\<rparr>)))"
  by (simp add: attempt_def get_round_robin_stub_def select_next_def client_of_def
        fresh_client_def new_entries_def scripted_world_def Let_def)

text \<open>
  C9, at the input where it fails. In \<^verbatim>\<open>async_predict\<close>, an awaited call that raises
  \<^verbatim>\<open>GRPCError(Status.NOT_FOUND)\<close> with no message makes the test \<^verbatim>\<open>"Model" in e.message\<close>
  raise \<^verbatim>\<open>TypeError\<close> inside the \<^verbatim>\<open>except\<close> clause. The call ends with \<^verbatim>\<open>TypeError\<close> after
  one remote call: the error is neither logged nor recorded, no reconciliation follows
  the failure, and the two remaining attempts are not made.
\<close>

theorem not_found_without_message:
  "\<exists>s'. async_predict
       (scripted_world (\<lambda>_. Returns [''1.2.3.4''])
          (\<lambda>_. Raises (GRPCError NOT_FOUND None)))
       [] None ''default'' None (client_of [''1.2.3.4''] 3)
     = (Inl (Raised TypeError), s') \<and> log s' = [] \<and> resolutions s' = 1 \<and> rpcs s' = 1"
proof -
  let ?w = "scripted_world (\<lambda>_. Returns [''1.2.3.4''])
              (\<lambda>_. Raises (GRPCError NOT_FOUND None))"
  let ?s = "client_of [''1.2.3.4''] 3"
  let ?req = "predict_request ?w [] ''default'' None None"
  let ?t = "?s\<lparr>resolutions := Suc 0\<rparr>"
  let ?u = "snd (attempt ?w True ?req ?t)"
  have r: "gethostbyname_ex ?w (resolutions ?s) (self_host ?s) = Returns [''1.2.3.4'']"
    by (simp add: scripted_world_def)
  have k: "set (keys (self_pool ?s)) = set [''1.2.3.4'']"
    by (simp add: client_of_def keys_def new_entries_def)
  have n1: "nat (n_trys ?s) = Suc 2"
    by (simp add: client_of_def fresh_client_def)
  have n2: "resolutions ?s = 0"
    by (simp add: client_of_def fresh_client_def)
  have n3: "rpcs ?s = 0"
    by (simp add: client_of_def fresh_client_def)
  have n4: "log ?s = []"
    by (simp add: client_of_def fresh_client_def)
  note n = n1 n2 n3 n4
  have att: "attempt ?w True ?req ?t = (Inl (GRPCError NOT_FOUND None), ?u)"
    by (rule attempt_scripted_at)
  have loop: "retry_loop ?w True ?req (Suc 2) [] ?t = (Inl (Raised TypeError), ?u)"
    by (rule async_not_found_no_message [OF att])
  have run: "async_predict ?w [] None ''default'' None ?s = (Inl (Raised TypeError), ?u)"
    unfolding async_predict_def call_resolved [OF r k] n loop by simp
  from attempt_frame [OF att] obtain P m where "?u = ?t\<lparr>self_pool := P, rpcs := m\<rparr>"
    "m = Suc (rpcs ?t)" by auto
  then have "log ?u = [] \<and> resolutions ?u = 1 \<and> rpcs ?u = 1"
    using n by simp
  with run show ?thesis by blast
qed

section \<open>Reconciliation at the start of the public operations\<close>

text \<open>
  \<^verbatim>\<open>list_models\<close> never calls the resolver and never changes the membership of the pool,
  whereas \<^verbatim>\<open>predict\<close> and \<^verbatim>\<open>async_predict\<close> reconcile before they select.
\<close>

lemma list_models_empty:
  "entries (self_pool s) = [] \<Longrightarrow> list_models w s = (Inl EmptyPool, s)"
  by (simp add: list_models_def select_next_def)

lemma list_models_no_resolution:
  "resolutions (snd (list_models w s)) = resolutions s
   \<and> keys (self_pool (snd (list_models w s))) = keys (self_pool s)"
proof (cases "select_next (self_pool s)")
  case None
  then show ?thesis by (simp add: list_models_def)
next
  case (Some x)
  obtain a conn P where x: "x = ((a, conn), P)" by (cases x) auto
  with Some have "keys P = keys (self_pool s)" by (simp add: select_next_keys)
  with Some x show ?thesis
    by (simp add: list_models_def Let_def split: outcome.splits)
qed

lemma retry_loop_success:
  "attempt w b req s = (Inr resp, s1) \<Longrightarrow>
   retry_loop w b req (Suc k) errors s = (Inr resp, s1)"
  by simp

lemma call_reconciles_then_calls:
  assumes res: "gethostbyname_ex w (resolutions s) (self_host s) = Returns xs"
    and ne: "xs \<noteq> []"
    and inv: "distinct (keys (self_pool s))"
    and ok: "\<forall>k st r. \<exists>resp. Predict w k st r = Returns resp"
    and pos: "0 < n_trys s"
  shows "\<exists>m s'. call w b data output_names model_name sg s = (Inr m, s')
           \<and> addresses (self_pool s') = set xs \<and> rpcs s' = Suc (rpcs s)"
proof -
  from setup_connections_resolved [OF res] inv obtain P H
    where stp: "setup_connections w s =
        (Inr (), s\<lparr>resolutions := Suc (resolutions s), self_pool := P,
                   open_channels := open_channels s @ H\<rparr>)"
      and P: "set (keys P) = set xs" by blast
  let ?t = "s\<lparr>resolutions := Suc (resolutions s), self_pool := P,
               open_channels := open_channels s @ H\<rparr>"
  let ?req = "predict_request w data model_name output_names sg"
  from P ne have e: "entries (self_pool ?t) \<noteq> []" by (auto simp: keys_def)
  with attempt_cases [of w b ?req ?t] obtain Q st
    where Q: "keys Q = keys (self_pool ?t)"
      and att: "attempt w b ?req ?t =
        ((case Predict w (rpcs ?t) st ?req of Raises e \<Rightarrow> Inl e | Returns resp \<Rightarrow> Inr resp),
         ?t\<lparr>self_pool := Q, rpcs := Suc (rpcs ?t)\<rparr>)" by auto
  from ok obtain resp where "Predict w (rpcs ?t) st ?req = Returns resp" by blast
  with att have att': "attempt w b ?req ?t = (Inr resp, ?t\<lparr>self_pool := Q, rpcs := Suc (rpcs ?t)\<rparr>)"
    by simp
  from pos obtain k where k: "nat (n_trys ?t) = Suc k" by (cases "nat (n_trys s)") auto
  have "call w b data output_names model_name sg s =
      (Inr (parse_predict_response w resp), ?t\<lparr>self_pool := Q, rpcs := Suc (rpcs ?t)\<rparr>)"
    using stp retry_loop_success [OF att', of k "[]"] k by (simp add: call_def Let_def)
  moreover have "addresses (self_pool (?t\<lparr>self_pool := Q, rpcs := Suc (rpcs ?t)\<rparr>)) = set xs"
    using P Q by (simp add: addresses_def)
  ultimately show ?thesis by auto
qed

text \<open>
  C6, at the input where it fails. A client is built while the name resolves to no
  address; afterwards the name resolves to one address. \<^verbatim>\<open>list_models\<close> raises
  \<^verbatim>\<open>EmptyPool\<close> and leaves the client as it was, without asking the resolver, while
  \<^verbatim>\<open>predict\<close> in the same state reconciles, finds the address and returns.
\<close>

theorem list_models_skips_reconciliation:
  "Client_init
     (scripted_world (\<lambda>k. if k = 0 then Returns [] else Returns [''1.2.3.4''])
        (\<lambda>_. Returns []))
     ''localhost'' 9999 3 None None
     = (Inr (), (fresh_client 3)\<lparr>resolutions := 1\<rparr>)
   \<and> gethostbyname_ex
       (scripted_world (\<lambda>k. if k = 0 then Returns [] else Returns [''1.2.3.4''])
          (\<lambda>_. Returns []))
       (resolutions ((fresh_client 3)\<lparr>resolutions := 1\<rparr>)) ''localhost''
     = Returns [''1.2.3.4'']
   \<and> list_models
       (scripted_world (\<lambda>k. if k = 0 then Returns [] else Returns [''1.2.3.4''])
          (\<lambda>_. Returns []))
       ((fresh_client 3)\<lparr>resolutions := 1\<rparr>)
     = (Inl EmptyPool, (fresh_client 3)\<lparr>resolutions := 1\<rparr>)
   \<and> (\<exists>m s'. predict
       (scripted_world (\<lambda>k. if k = 0 then Returns [] else Returns [''1.2.3.4''])
          (\<lambda>_. Returns []))
       [] None ''default'' None ((fresh_client 3)\<lparr>resolutions := 1\<rparr>)
     = (Inr m, s') \<and> addresses (self_pool s') = {''1.2.3.4''})"
proof -
  let ?w = "scripted_world (\<lambda>k. if k = 0 then Returns [] else Returns [''1.2.3.4''])
        (\<lambda>_. Returns [])"
  let ?t = "(fresh_client 3)\<lparr>resolutions := 1\<rparr>"
  have init: "Client_init ?w ''localhost'' 9999 3 None None = (Inr (), ?t)"
    by (simp add: Client_init_def setup_connections_def fresh_client_def scripted_world_def
          empty_pool_def keys_def)
  have res: "gethostbyname_ex ?w (resolutions ?t) (self_host ?t) = Returns [''1.2.3.4'']"
    by (simp add: scripted_world_def)
  have host: "self_host ?t = ''localhost''" by (simp add: fresh_client_def)
  have empty: "entries (self_pool ?t) = []"
    by (simp add: fresh_client_def empty_pool_def)
  have lm: "list_models ?w ?t = (Inl EmptyPool, ?t)"
    by (rule list_models_empty [OF empty])
  have inv: "distinct (keys (self_pool ?t))" using empty by (simp add: keys_def)
  have ok: "\<forall>k st r. \<exists>resp. Predict ?w k st r = Returns resp"
    by (simp add: scripted_world_def)
  have pos: "0 < n_trys ?t" by (simp add: fresh_client_def)
  from call_reconciles_then_calls [OF res _ inv ok pos, of False "[]" None "''default''" None]
  have "\<exists>m s'. predict ?w [] None ''default'' None ?t = (Inr m, s')
      \<and> addresses (self_pool s') = {''1.2.3.4''}"
    by (auto simp: predict_def)
  with init res lm show ?thesis unfolding host by blast
qed


section \<open>Eviction and the transport handles\<close>

text \<open>
  C5, counterexample. The pool holds the connection to one address, whose two handles
  are open. The name then resolves to no address: \<^verbatim>\<open>_setup_connections\<close> deletes the
  entry, and both handles of the evicted connection are still open afterwards.
\<close>

theorem eviction_leaves_handles_open:
  "map fst (entries (self_pool (client_of [''1.2.3.4''] 3))) = [''1.2.3.4'']
   \<and> map (sync_channel \<circ> snd) (entries (self_pool (client_of [''1.2.3.4''] 3)))
       = [insecure_channel (''1.2.3.4'', 9999) []]
   \<and> map (async_channel \<circ> snd) (entries (self_pool (client_of [''1.2.3.4''] 3)))
       = [Channel ''1.2.3.4'' 9999]
   \<and> setup_connections no_backends (client_of [''1.2.3.4''] 3)
       = (Inr (), (client_of [''1.2.3.4''] 3)
                    \<lparr>self_pool := \<lparr>entries = [], cursor = 0\<rparr>, resolutions := 1\<rparr>)
   \<and> open_channels ((client_of [''1.2.3.4''] 3)
                    \<lparr>self_pool := \<lparr>entries = [], cursor = 0\<rparr>, resolutions := 1\<rparr>)
       = [Sync_handle (insecure_channel (''1.2.3.4'', 9999) []),
          Async_handle (Channel ''1.2.3.4'' 9999)]"
  by (simp add: keys_def client_of_def fresh_client_def new_entries_def
        new_handles_def Connection_init_def no_backends_def scripted_world_def
        setup_connections_def set_iter_def remove_def Let_def)

text \<open>
  C5, amended. For every address that reconciliation evicts because the resolver's
  current set no longer has it, the entry is deleted from the pool, and the eviction
  closes no transport handle: every handle that was open before the reconciliation,
  those of the evicted connection among them, is open after it.
\<close>

theorem eviction_closes_nothing:
  assumes inv: "distinct (keys (self_pool s))"
    and res: "gethostbyname_ex w (resolutions s) (self_host s) = Returns xs"
    and old: "a \<in> addresses (self_pool s)"
    and gone: "a \<notin> set xs"
  shows "\<exists>s'. setup_connections w s = (Inr (), s')
           \<and> a \<notin> addresses (self_pool s')
           \<and> prefix (open_channels s) (open_channels s')"
proof -
  from setup_connections_resolved [OF res] inv obtain P H
    where stp: "setup_connections w s =
        (Inr (), s\<lparr>resolutions := Suc (resolutions s), self_pool := P,
                   open_channels := open_channels s @ H\<rparr>)"
      and P: "set (keys P) = set xs" by blast
  with gone show ?thesis by (simp add: addresses_def)
qed

theorem eviction_closes_nothing_witness:
  "\<exists>s'. setup_connections no_backends (client_of [''1.2.3.4''] 3) = (Inr (), s')
      \<and> ''1.2.3.4'' \<notin> addresses (self_pool s')
      \<and> prefix (open_channels (client_of [''1.2.3.4''] 3)) (open_channels s')"
proof -
  let ?c = "client_of [''1.2.3.4''] 3"
  have inv: "distinct (keys (self_pool ?c))"
    by (simp add: client_of_def keys_def new_entries_def)
  have res: "gethostbyname_ex no_backends (resolutions ?c) (self_host ?c) = Returns []"
    by (simp add: no_backends_def scripted_world_def)
  have old: "''1.2.3.4'' \<in> addresses (self_pool ?c)"
    by (simp add: addresses_def client_of_def keys_def new_entries_def)
  have gone: "''1.2.3.4'' \<notin> set []" by simp
  show ?thesis by (rule eviction_closes_nothing [OF inv res old gone])
qed

section \<open>The retry budget\<close>

lemma length_attempt_schedule: "length (attempt_schedule answer r c k) = k"
  by (induction k arbitrary: r c) auto

lemma retry_loop_records_attempts:
  assumes res: "\<forall>k. gethostbyname_ex w k h = Returns (answer k)"
    and fail: "\<forall>k st r. \<exists>e rec. Predict w k st r = Raises e \<and> except_clauses b e = Retry rec"
  shows "self_host s = h \<Longrightarrow> distinct (keys (self_pool s)) \<Longrightarrow>
         set (keys (self_pool s)) = set (answer r) \<Longrightarrow> resolutions s = Suc r \<Longrightarrow>
         \<exists>errs recs s'.
           retry_loop w b req k errors s = (Inl (RetryFailed (n_trys s) (errors @ errs)), s')
         \<and> list_all2 (raised_by w req) errs (attempt_schedule answer r (rpcs s) k)
         \<and> log s' = log s @ recs \<and> map recorded recs = errs"
proof (induction k arbitrary: errors s r)
  case 0
  then show ?case by simp
next
  case (Suc k)
  have step: "\<exists>e rec t. attempt w b req s = (Inl e, t) \<and> except_clauses b e = Retry rec
      \<and> self_host t = h \<and> distinct (keys (self_pool t)) \<and> n_trys t = n_trys s
      \<and> log t = log s \<and> resolutions t = Suc r
      \<and> raised_by w req e (if answer r = [] then None else Some (rpcs s))
      \<and> rpcs t = (if answer r = [] then rpcs s else Suc (rpcs s))"
  proof -
    from attempt_cases [of w b req s] show ?thesis
    proof
      assume a: "attempt w b req s = (Inl EmptyPool, s) \<and> entries (self_pool s) = []"
      with Suc.prems(3) have "answer r = []" by (simp add: keys_def)
      with a Suc.prems except_clauses_EmptyPool [of b] show ?thesis by auto
    next
      assume "\<exists>P st. keys P = keys (self_pool s) \<and> entries (self_pool s) \<noteq> []
        \<and> attempt w b req s =
            ((case Predict w (rpcs s) st req of Raises e \<Rightarrow> Inl e | Returns resp \<Rightarrow> Inr resp),
             s\<lparr>self_pool := P, rpcs := Suc (rpcs s)\<rparr>)"
      then obtain P st where P: "keys P = keys (self_pool s)"
        and ne: "entries (self_pool s) \<noteq> []"
        and a: "attempt w b req s =
            ((case Predict w (rpcs s) st req of Raises e \<Rightarrow> Inl e | Returns resp \<Rightarrow> Inr resp),
             s\<lparr>self_pool := P, rpcs := Suc (rpcs s)\<rparr>)" by blast
      from ne Suc.prems(3) have n: "answer r \<noteq> []" by (auto simp: keys_def)
      from fail obtain e rec where e: "Predict w (rpcs s) st req = Raises e"
        "except_clauses b e = Retry rec" by blast
      from a e have "attempt w b req s = (Inl e, s\<lparr>self_pool := P, rpcs := Suc (rpcs s)\<rparr>)"
        by simp
      moreover from e(1) n
      have "raised_by w req e (if answer r = [] then None else Some (rpcs s))" by auto
      ultimately show ?thesis using e(2) P n Suc.prems by auto
    qed
  qed
  then obtain e rec t where att: "attempt w b req s = (Inl e, t)"
    and h: "except_clauses b e = Retry rec"
    and t: "self_host t = h" "distinct (keys (self_pool t))" "n_trys t = n_trys s"
      "log t = log s" "resolutions t = Suc r"
    and raised: "raised_by w req e (if answer r = [] then None else Some (rpcs s))"
    and calls: "rpcs t = (if answer r = [] then rpcs s else Suc (rpcs s))" by blast
  let ?t = "t\<lparr>log := log t @ [rec]\<rparr>"
  from res t have "gethostbyname_ex w (resolutions ?t) (self_host ?t) = Returns (answer (Suc r))"
    by simp
  from setup_connections_resolved [OF this] t(2) obtain P H
    where stp: "setup_connections w ?t =
        (Inr (), ?t\<lparr>resolutions := Suc (resolutions ?t), self_pool := P,
                    open_channels := open_channels ?t @ H\<rparr>)"
      and P: "set (keys P) = set (answer (Suc r))" "distinct (keys P)" by auto
  let ?u = "?t\<lparr>resolutions := Suc (resolutions ?t), self_pool := P,
                    open_channels := open_channels ?t @ H\<rparr>"
  have u: "self_host ?u = h" "distinct (keys (self_pool ?u))"
    "set (keys (self_pool ?u)) = set (answer (Suc r))" "resolutions ?u = Suc (Suc r)"
    using t P by simp_all
  from Suc.IH [OF u, of "errors @ [e]"] obtain errs recs s'
    where ih: "retry_loop w b req k (errors @ [e]) ?u
          = (Inl (RetryFailed (n_trys ?u) ((errors @ [e]) @ errs)), s')"
      "list_all2 (raised_by w req) errs (attempt_schedule answer (Suc r) (rpcs ?u) k)"
      "log s' = log ?u @ recs" "map recorded recs = errs" by blast
  have "retry_loop w b req (Suc k) errors s = retry_loop w b req k (errors @ [e]) ?u"
    using att h stp by simp
  with ih raised calls t have "retry_loop w b req (Suc k) errors s
        = (Inl (RetryFailed (n_trys s) (errors @ (e # errs))), s')
      \<and> list_all2 (raised_by w req) (e # errs) (attempt_schedule answer r (rpcs s) (Suc k))
      \<and> log s' = log s @ (rec # recs)
      \<and> map recorded (rec # recs) = e # errs"
    using except_clauses_recorded [OF h] by (cases "answer r = []") simp_all
  then show ?case by (intro exI)
qed

lemma retry_loop_resolver_raises:
  assumes att: "attempt w b req s = (Inl e, t)"
    and h: "except_clauses b e = Retry rec"
    and down: "gethostbyname_ex w (resolutions t) (self_host t) = Raises e'"
  shows "retry_loop w b req (Suc k) errors s =
           (Inl (Raised e'), t\<lparr>log := log t @ [rec], resolutions := Suc (resolutions t)\<rparr>)"
proof -
  let ?t = "t\<lparr>log := log t @ [rec]\<rparr>"
  from down have "gethostbyname_ex w (resolutions ?t) (self_host ?t) = Raises e'" by simp
  from setup_connections_raises [OF this] att h show ?thesis by simp
qed

text \<open>
  C3, counterexample. The name resolves when the call begins and not afterwards, and
  every remote call is refused with \<^verbatim>\<open>UNAVAILABLE\<close>, an error that \<^verbatim>\<open>predict\<close> retries. The
  first attempt fails and is logged; the reconciliation inside the \<^verbatim>\<open>except\<close> clause then
  raises \<^verbatim>\<open>gaierror\<close>, which leaves \<^verbatim>\<open>predict\<close>. The call ends after one remote call with
  \<^verbatim>\<open>gaierror\<close>, not with \<^verbatim>\<open>RetryFailed\<close>.
\<close>

theorem resolver_failure_ends_the_call:
  "predict_except (RpcError UNAVAILABLE ''down'')
     = Retry (Logged_exception (RpcError UNAVAILABLE ''down''))
   \<and> fst (predict resolver_goes_down [] None ''default'' None (client_of [''1.2.3.4''] 3))
     = Inl (Raised gaierror)
   \<and> rpcs (snd (predict resolver_goes_down [] None ''default'' None
                   (client_of [''1.2.3.4''] 3))) = 1
   \<and> log (snd (predict resolver_goes_down [] None ''default'' None
                  (client_of [''1.2.3.4''] 3)))
     = [Logged_exception (RpcError UNAVAILABLE ''down'')]"
proof -
  let ?w = "resolver_goes_down"
  let ?c = "client_of [''1.2.3.4''] 3"
  let ?e = "RpcError UNAVAILABLE ''down''"
  let ?req = "predict_request ?w [] ''default'' None None"
  let ?t = "?c\<lparr>resolutions := Suc 0\<rparr>"
  let ?u = "snd (attempt ?w False ?req ?t)"
  have r: "gethostbyname_ex ?w (resolutions ?c) (self_host ?c) = Returns [''1.2.3.4'']"
    by (simp add: resolver_goes_down_def scripted_world_def client_of_def fresh_client_def)
  have k: "set (keys (self_pool ?c)) = set [''1.2.3.4'']"
    by (simp add: client_of_def keys_def new_entries_def)
  have n1: "nat (n_trys ?c) = Suc 2"
    by (simp add: client_of_def fresh_client_def)
  have n2: "resolutions ?c = 0"
    by (simp add: client_of_def fresh_client_def)
  have n3: "rpcs ?t = 0" "log ?t = []"
    by (simp_all add: client_of_def fresh_client_def)
  have att: "attempt ?w False ?req ?t = (Inl ?e, ?u)"
    unfolding resolver_goes_down_def by (rule attempt_scripted_at)
  have h: "except_clauses False ?e = Retry (Logged_exception ?e)"
    by (simp add: except_clauses_def)
  from attempt_frame [OF att] obtain P m where u: "?u = ?t\<lparr>self_pool := P, rpcs := m\<rparr>"
    "m = Suc (rpcs ?t)" by auto
  have down: "gethostbyname_ex ?w (resolutions ?u) (self_host ?u) = Raises gaierror"
    unfolding u(1) by (simp add: resolver_goes_down_def scripted_world_def)
  have loop: "retry_loop ?w False ?req (Suc 2) [] ?t =
      (Inl (Raised gaierror),
       ?u\<lparr>log := log ?u @ [Logged_exception ?e], resolutions := Suc (resolutions ?u)\<rparr>)"
    by (rule retry_loop_resolver_raises [OF att h down])
  have run: "predict ?w [] None ''default'' None ?c =
      (Inl (Raised gaierror),
       ?u\<lparr>log := log ?u @ [Logged_exception ?e], resolutions := Suc (resolutions ?u)\<rparr>)"
    unfolding predict_def call_resolved [OF r k] n1 n2 loop by simp
  have "rpcs ?u = 1" "log ?u = []" using u n3 by simp_all
  then show ?thesis unfolding run by simp
qed

text \<open>
  C3, amended. Let every name resolution of the call answer and every remote call of
  the blocking surface raise an exception that the \<^verbatim>\<open>except\<close> clauses of \<^verbatim>\<open>predict\<close> retry,
  for a client whose pool has unique keys. Then \<^verbatim>\<open>predict\<close> raises \<^verbatim>\<open>RetryFailed\<close>. Its
  \<^verbatim>\<open>errors\<close> hold one error for each of the \<^verbatim>\<open>range(n_trys)\<close> iterations, which is \<^verbatim>\<open>n_trys\<close>
  errors for every budget that is not negative. They are the errors that the attempts
  raised, in the order of the attempts: \<^verbatim>\<open>EmptyPool\<close> for an attempt that found the pool
  empty, and for every other attempt what its remote call raised, the calls being
  numbered in the order in which they were made. They are also the failures that the
  logger received during the call, in the order in which it received them.
\<close>

theorem retry_budget_exhausted:
  assumes res: "\<forall>k. gethostbyname_ex w k (self_host s) = Returns (answer k)"
    and fail: "\<forall>k st r. \<exists>e rec. Predict w k st r = Raises e \<and> predict_except e = Retry rec"
    and inv: "distinct (keys (self_pool s))"
  shows "\<exists>errs recs s'.
           predict w data output_names model_name model_signature_name s
             = (Inl (RetryFailed (n_trys s) errs), s')
         \<and> length errs = nat (n_trys s)
         \<and> (0 \<le> n_trys s \<longrightarrow> int (length errs) = n_trys s)
         \<and> list_all2
              (raised_by w (predict_request w data model_name output_names model_signature_name))
              errs (attempt_schedule answer (resolutions s) (rpcs s) (nat (n_trys s)))
         \<and> log s' = log s @ recs \<and> errs = map recorded recs"
proof -
  from res have "gethostbyname_ex w (resolutions s) (self_host s) = Returns (answer (resolutions s))"
    by blast
  from setup_connections_resolved [OF this] inv obtain P H
    where stp: "setup_connections w s =
        (Inr (), s\<lparr>resolutions := Suc (resolutions s), self_pool := P,
                   open_channels := open_channels s @ H\<rparr>)"
      and P: "set (keys P) = set (answer (resolutions s))" "distinct (keys P)" by auto
  let ?t = "s\<lparr>resolutions := Suc (resolutions s), self_pool := P,
                open_channels := open_channels s @ H\<rparr>"
  let ?req = "predict_request w data model_name output_names model_signature_name"
  from fail have fail': "\<forall>k st r. \<exists>e rec. Predict w k st r = Raises e
      \<and> except_clauses False e = Retry rec"
    by (simp add: except_clauses_def)
  have t: "self_host ?t = self_host s" "distinct (keys (self_pool ?t))"
    "set (keys (self_pool ?t)) = set (answer (resolutions s))"
    "resolutions ?t = Suc (resolutions s)"
    using P by simp_all
  from retry_loop_records_attempts [OF res fail' t, of ?req "nat (n_trys ?t)" "[]"]
  obtain errs recs s' where loop:
    "retry_loop w False ?req (nat (n_trys ?t)) [] ?t
        = (Inl (RetryFailed (n_trys ?t) ([] @ errs)), s')"
    "list_all2 (raised_by w ?req) errs
        (attempt_schedule answer (resolutions s) (rpcs ?t) (nat (n_trys ?t)))"
    "log s' = log ?t @ recs" "map recorded recs = errs"
    by blast
  from loop(2) have len: "length errs = nat (n_trys s)"
    by (simp add: list_all2_lengthD length_attempt_schedule)
  from loop len have "predict w data output_names model_name model_signature_name s
             = (Inl (RetryFailed (n_trys s) errs), s')
         \<and> length errs = nat (n_trys s)
         \<and> (0 \<le> n_trys s \<longrightarrow> int (length errs) = n_trys s)
         \<and> list_all2 (raised_by w ?req)
              errs (attempt_schedule answer (resolutions s) (rpcs s) (nat (n_trys s)))
         \<and> log s' = log s @ recs \<and> errs = map recorded recs"
    using stp by (auto simp: predict_def call_def Let_def)
  then show ?thesis by (intro exI)
qed

theorem retry_budget_exhausted_witness:
  "\<exists>s'. predict backend_comes_up_failing [] None ''default'' None (client_of [''1.2.3.4''] 3)
     = (Inl (RetryFailed 3
          [EmptyPool, RpcError UNAVAILABLE ''down'', RpcError DEADLINE_EXCEEDED ''slow'']), s')"
proof -
  let ?w = "backend_comes_up_failing"
  let ?c = "client_of [''1.2.3.4''] 3"
  let ?answer = "\<lambda>k::nat. if k = 0 then [] else [''1.2.3.4'']"
  let ?req = "predict_request ?w [] ''default'' None None"
  have res: "\<forall>k. gethostbyname_ex ?w k (self_host ?c) = Returns (?answer k)"
    by (simp add: backend_comes_up_failing_def scripted_world_def)
  have fail: "\<forall>k st r. \<exists>e rec. Predict ?w k st r = Raises e \<and> predict_except e = Retry rec"
    by (simp add: backend_comes_up_failing_def scripted_world_def)
  have inv: "distinct (keys (self_pool ?c))"
    by (simp add: client_of_def keys_def new_entries_def)
  have n: "n_trys ?c = 3" "resolutions ?c = 0" "rpcs ?c = 0"
    by (simp_all add: client_of_def fresh_client_def)
  have sched: "attempt_schedule ?answer 0 0 (nat 3) = [None, Some 0, Some (Suc 0)]"
    by (simp add: numeral_3_eq_3)
  from retry_budget_exhausted [OF res fail inv, of "[]" None "''default''" None]
  obtain errs s' where run: "predict ?w [] None ''default'' None ?c
      = (Inl (RetryFailed 3 errs), s')"
    and errs: "list_all2 (raised_by ?w ?req) errs [None, Some 0, Some (Suc 0)]"
    unfolding n sched by blast
  from errs have "errs = [EmptyPool, RpcError UNAVAILABLE ''down'',
      RpcError DEADLINE_EXCEEDED ''slow'']"
    by (auto simp: list_all2_Cons2 backend_comes_up_failing_def scripted_world_def)
  with run show ?thesis by blast
qed

section \<open>The pool keeps its keys unique\<close>

text \<open>
  The theorems on reconciliation ask for a pool whose keys are unique. The pool of a new
  client is such a pool, and every operation of the client keeps it one.
\<close>

lemma empty_pool_unique: "distinct (keys empty_pool)"
  by (simp add: keys_def empty_pool_def)

lemma setup_connections_unique:
  assumes "distinct (keys (self_pool s))"
  shows "distinct (keys (self_pool (snd (setup_connections w s))))"
proof (cases "gethostbyname_ex w (resolutions s) (self_host s)")
  case (Returns xs)
  from setup_connections_resolved [OF this] assms show ?thesis by auto
next
  case (Raises e)
  from setup_connections_raises [OF this] assms show ?thesis by simp
qed

lemma Client_init_unique:
  "distinct (keys (self_pool (snd (Client_init w h p n pem opts))))"
  unfolding Client_init_def
  by (rule setup_connections_unique) (simp add: keys_def empty_pool_def)

lemma attempt_unique:
  assumes "distinct (keys (self_pool s))"
  shows "distinct (keys (self_pool (snd (attempt w b req s))))"
proof -
  obtain r t where a: "attempt w b req s = (r, t)" by (cases "attempt w b req s")
  from attempt_frame [OF a] assms show ?thesis unfolding a by auto
qed

lemma retry_loop_unique:
  "distinct (keys (self_pool s)) \<Longrightarrow>
   distinct (keys (self_pool (snd (retry_loop w b req k errors s))))"
proof (induction k arbitrary: errors s)
  case 0
  then show ?case by simp
next
  case (Suc k)
  obtain r t where att: "attempt w b req s = (r, t)" by (cases "attempt w b req s")
  from attempt_unique [OF Suc.prems, of w b req] att
  have t: "distinct (keys (self_pool t))" by simp
  show ?case
  proof (cases r)
    case (Inr resp)
    with att t show ?thesis by simp
  next
    case (Inl e)
    show ?thesis
    proof (cases "except_clauses b e")
      case (Reraise e')
      with att Inl t show ?thesis by simp
    next
      case (Retry rec)
      let ?t = "t\<lparr>log := log t @ [rec]\<rparr>"
      obtain q u where stp: "setup_connections w ?t = (q, u)"
        by (cases "setup_connections w ?t")
      from t have "distinct (keys (self_pool ?t))" by simp
      from setup_connections_unique [OF this, of w] stp
      have u: "distinct (keys (self_pool u))" by simp
      show ?thesis
      proof (cases q)
        case (Inl e')
        with att \<open>r = Inl e\<close> Retry stp u show ?thesis by simp
      next
        case (Inr x)
        with att \<open>r = Inl e\<close> Retry stp Suc.IH [OF u] show ?thesis by simp
      qed
    qed
  qed
qed

lemma call_unique:
  assumes "distinct (keys (self_pool s))"
  shows "distinct (keys (self_pool (snd (call w b data output_names model_name sg s))))"
proof -
  obtain q u where stp: "setup_connections w s = (q, u)"
    by (cases "setup_connections w s")
  from setup_connections_unique [OF assms, of w] stp
  have u: "distinct (keys (self_pool u))" by simp
  let ?req = "predict_request w data model_name output_names sg"
  from retry_loop_unique [OF u, of w b ?req "nat (n_trys u)" "[]"] u stp
  show ?thesis
    by (cases q) (auto simp: call_def Let_def split: prod.splits sum.splits)
qed

lemma list_models_unique:
  "distinct (keys (self_pool s)) \<Longrightarrow> distinct (keys (self_pool (snd (list_models w s))))"
  by (simp add: list_models_no_resolution)

end
